theory Spec2Isabelle
  imports Main
begin

section \<open>The backtick scanner \<^verbatim>\<open>find_unclosed_backtick.py\<close>\<close>

text \<open>
  The script opens one text file, reads all its lines, walks over every character of
  every line with one cumulative counter of backticks, prints an event for every backtick,
  a warning after every line at whose end the counter is odd, and a summary with the
  parity verdict. This theory embeds the script as HOL functions and proves what the
  specification says about its output.
\<close>

subsection \<open>Python strings and the text file\<close>

text \<open>
  A Python \<^verbatim>\<open>str\<close> is a sequence of Unicode code points, and \<^verbatim>\<open>enumerate(line)\<close>
  counts code points, so a character of the input is a code point (a natural number),
  not a byte.
\<close>

type_synonym codepoint = nat
type_synonym pystr = "codepoint list"

definition BACKTICK :: codepoint where
  "BACKTICK = 96"

definition LF :: codepoint where
  "LF = 10"

definition CR :: codepoint where
  "CR = 13"

text \<open>
  What \<^verbatim>\<open>open(filename, 'r', encoding='utf-8')\<close> and the read behind
  \<^verbatim>\<open>f.readlines()\<close> can raise. Neither is caught by the script.
\<close>

datatype io_error = FileNotFoundError | PermissionError | UnicodeDecodeError

text \<open>
  The file system is a parameter of the run: for every path either the error that opening
  or decoding the file raises, or the decoded text of the file (its code points, before
  the translation of line terminators).
\<close>

type_synonym filesystem = "string \<Rightarrow> io_error + pystr"

text \<open>
  The file is opened in text mode with the default \<^verbatim>\<open>newline=None\<close>: on input the
  terminators \<^verbatim>\<open>\r\n\<close> and \<^verbatim>\<open>\r\<close> are translated to \<^verbatim>\<open>\n\<close>.
\<close>

fun universal_newlines :: "pystr \<Rightarrow> pystr" where
  "universal_newlines [] = []"
| "universal_newlines [c] = [if c = CR then LF else c]"
| "universal_newlines (c # d # cs) =
     (if c = CR \<and> d = LF then LF # universal_newlines cs
      else if c = CR then LF # universal_newlines (d # cs)
      else c # universal_newlines (d # cs))"

text \<open>
  \<^verbatim>\<open>readlines()\<close> cuts the text after every \<^verbatim>\<open>\n\<close> and keeps the terminator in
  the line; a last line without terminator is returned as it is, and the empty text has
  no line. \<open>cur\<close> is the line read so far.
\<close>

fun split_lines :: "pystr \<Rightarrow> pystr \<Rightarrow> pystr list" where
  "split_lines cur [] = (if cur = [] then [] else [cur])"
| "split_lines cur (c # cs) =
     (if c = LF then (cur @ [c]) # split_lines [] cs else split_lines (cur @ [c]) cs)"

definition readlines :: "pystr \<Rightarrow> pystr list" where
  "readlines text = split_lines [] (universal_newlines text)"

subsection \<open>Printed output\<close>

text \<open>
  Every \<^verbatim>\<open>print\<close> call of the script is one message; \<open>render\<close> gives the string
  the call is given, and \<open>stdout_text\<close> the characters that reach standard output
  (\<^verbatim>\<open>print\<close> appends a newline to its argument).
\<close>

datatype out_msg =
    Found int int int
  | Warning int
  | Total int
  | VerdictError
  | VerdictOK

definition digit_char :: "nat \<Rightarrow> char" where
  "digit_char d = ''0123456789'' ! d"

function show_nat :: "nat \<Rightarrow> string" where
  "show_nat n = (if n < 10 then [digit_char n] else show_nat (n div 10) @ [digit_char (n mod 10)])"
  by pat_completeness auto
termination
  by (relation "measure id") auto

declare show_nat.simps [simp del]

definition show_int :: "int \<Rightarrow> string" where
  "show_int i = (if i < 0 then CHR ''-'' # show_nat (nat (- i)) else show_nat (nat i))"

definition newline :: char where
  "newline = CHR 0x0A"

definition OK_MESSAGE :: string where
  "OK_MESSAGE = ''OK: Even number of backticks''"

definition ERROR_MESSAGE :: string where
  "ERROR_MESSAGE =
     ''ERROR: Odd number of backticks - there'' @ [CHR 0x27] @ ''s an unclosed template literal!''"

fun render :: "out_msg \<Rightarrow> string" where
  "render (Found line_num pos tot) =
     ''Line '' @ show_int line_num @ '', char '' @ show_int pos @
     '': Found backtick (total: '' @ show_int tot @ '')''"
| "render (Warning line_num) =
     ''*** WARNING: Unclosed backtick detected at end of line '' @ show_int line_num"
| "render (Total tot) = newline # ''Total backticks: '' @ show_int tot"
| "render VerdictError = ERROR_MESSAGE"
| "render VerdictOK = OK_MESSAGE"

definition stdout_text :: "out_msg list \<Rightarrow> string" where
  "stdout_text msgs = concat (map (\<lambda>m. render m @ [newline]) msgs)"

definition output_line_count :: "out_msg list \<Rightarrow> nat" where
  "output_line_count msgs = count_list (stdout_text msgs) newline"

subsection \<open>The scan\<close>

record scan_state =
  backtick_count :: int
  out :: "out_msg list"

definition print_msg :: "out_msg \<Rightarrow> scan_state \<Rightarrow> scan_state" where
  "print_msg m s = s\<lparr>out := out s @ [m]\<rparr>"

text \<open>
  The inner loop \<^verbatim>\<open>for char_pos, char in enumerate(line)\<close>: \<open>char_pos\<close> is the
  0-based index of the next character.
\<close>

fun char_loop :: "int \<Rightarrow> int \<Rightarrow> pystr \<Rightarrow> scan_state \<Rightarrow> scan_state" where
  "char_loop line_num char_pos [] s = s"
| "char_loop line_num char_pos (ch # rest) s =
     char_loop line_num (char_pos + 1) rest
       (if ch = BACKTICK then
          (let s' = s\<lparr>backtick_count := backtick_count s + 1\<rparr>
           in print_msg (Found line_num (char_pos + 1) (backtick_count s')) s')
        else s)"

text \<open>The check at the end of a line.\<close>

definition line_end :: "int \<Rightarrow> scan_state \<Rightarrow> scan_state" where
  "line_end line_num s =
     (if backtick_count s mod 2 = 1 then print_msg (Warning line_num) s else s)"

text \<open>The outer loop \<^verbatim>\<open>for line_num, line in enumerate(lines, 1)\<close>.\<close>

fun line_loop :: "int \<Rightarrow> pystr list \<Rightarrow> scan_state \<Rightarrow> scan_state" where
  "line_loop line_num [] s = s"
| "line_loop line_num (line # rest) s =
     line_loop (line_num + 1) rest (line_end line_num (char_loop line_num 0 line s))"

definition init_state :: scan_state where
  "init_state = \<lparr>backtick_count = 0, out = []\<rparr>"

definition summary :: "scan_state \<Rightarrow> scan_state" where
  "summary s =
     (let s1 = print_msg (Total (backtick_count s)) s
      in if backtick_count s1 mod 2 = 1 then print_msg VerdictError s1
         else print_msg VerdictOK s1)"

definition scan :: "pystr list \<Rightarrow> scan_state" where
  "scan lines = summary (line_loop 1 lines init_state)"

text \<open>
  A run ends with what it printed and with the exception that ended it, if any. The file
  is opened and read before the first \<^verbatim>\<open>print\<close>.
\<close>

record run_result =
  printed :: "out_msg list"
  raised :: "io_error option"

definition find_unclosed_backtick :: "filesystem \<Rightarrow> string \<Rightarrow> run_result" where
  "find_unclosed_backtick fs filename =
     (case fs filename of
        Inl e \<Rightarrow> \<lparr>printed = [], raised = Some e\<rparr>
      | Inr text \<Rightarrow> \<lparr>printed = out (scan (readlines text)), raised = None\<rparr>)"

text \<open>The script's entry point scans one fixed path.\<close>

definition main :: "filesystem \<Rightarrow> run_result" where
  "main fs = find_unclosed_backtick fs ''app/register/page.tsx''"

subsection \<open>Observations on a run\<close>

text \<open>The state of the scan when the first \<open>i\<close> lines have been processed.\<close>

definition after_lines :: "pystr list \<Rightarrow> nat \<Rightarrow> scan_state" where
  "after_lines lines i = line_loop 1 (take i lines) init_state"

text \<open>The kinds of printed message.\<close>

fun is_event :: "out_msg \<Rightarrow> bool" where
  "is_event (Found line_num pos tot) = True"
| "is_event m = False"

fun is_warning :: "out_msg \<Rightarrow> bool" where
  "is_warning (Warning line_num) = True"
| "is_warning m = False"

fun is_total :: "out_msg \<Rightarrow> bool" where
  "is_total (Total tot) = True"
| "is_total m = False"

fun is_verdict :: "out_msg \<Rightarrow> bool" where
  "is_verdict VerdictError = True"
| "is_verdict VerdictOK = True"
| "is_verdict m = False"

text \<open>The totals reported by the events, in the order they are printed.\<close>

fun event_total :: "out_msg \<Rightarrow> int list" where
  "event_total (Found line_num pos tot) = [tot]"
| "event_total m = []"

definition event_totals :: "out_msg list \<Rightarrow> int list" where
  "event_totals msgs = concat (map event_total msgs)"

text \<open>The character positions reported for line \<open>n\<close>, in the order they are printed.\<close>

fun event_position :: "int \<Rightarrow> out_msg \<Rightarrow> int list" where
  "event_position n (Found line_num pos tot) = (if line_num = n then [pos] else [])"
| "event_position n m = []"

definition event_positions :: "int \<Rightarrow> out_msg list \<Rightarrow> int list" where
  "event_positions n msgs = concat (map (event_position n) msgs)"

text \<open>The line numbers of the warnings, in the order they are printed.\<close>

fun warning_line :: "out_msg \<Rightarrow> int list" where
  "warning_line (Warning line_num) = [line_num]"
| "warning_line m = []"

definition warned_lines :: "out_msg list \<Rightarrow> int list" where
  "warned_lines msgs = concat (map warning_line msgs)"

text \<open>
  A line as \<^verbatim>\<open>readlines()\<close> returns it, without its terminator, and the 1-based offsets
  of the backticks of a string.
\<close>

definition strip_terminator :: "pystr \<Rightarrow> pystr" where
  "strip_terminator l = (if l \<noteq> [] \<and> last l = LF then butlast l else l)"

definition backtick_offsets :: "pystr \<Rightarrow> int list" where
  "backtick_offsets l = map (\<lambda>i. int i + 1) (filter (\<lambda>i. l ! i = BACKTICK) [0..<length l])"

text \<open>A file system with one readable file, for concrete runs.\<close>

definition single_file :: "string \<Rightarrow> pystr \<Rightarrow> filesystem" where
  "single_file path text = (\<lambda>p. if p = path then Inr text else Inl FileNotFoundError)"

text \<open>
  The inputs of the specification's concrete scenarios: \<^verbatim>\<open>a`b\<close>, \<^verbatim>\<open>a`b`c\<close>, the two
  lines \<^verbatim>\<open>`a\<close> and \<^verbatim>\<open>b`\<close>, and a file whose first line leaves the counter odd
  and is followed by two lines without backtick.
\<close>

definition target :: string where
  "target = ''app/register/page.tsx''"

definition scenario1 :: pystr where
  "scenario1 = [97, 96, 98]"

definition scenario2 :: pystr where
  "scenario2 = [97, 96, 98, 96, 99]"

definition scenario3 :: pystr where
  "scenario3 = [96, 97, 10, 98, 96]"

definition cascade_text :: pystr where
  "cascade_text = [96, 10, 97, 10, 98, 10]"

definition crlf_text :: pystr where
  "crlf_text = [97, 96, 13, 10, 96, 96, 13, 98]"

section \<open>Properties of the loops\<close>

subsection \<open>The counter\<close>


lemma print_msg_simps [simp]:
  "backtick_count (print_msg m s) = backtick_count s"
  "out (print_msg m s) = out s @ [m]"
  by (simp_all add: print_msg_def)

lemma char_loop_count:
  "backtick_count (char_loop ln cp cs s) = backtick_count s + int (count_list cs BACKTICK)"
  by (induction cs arbitrary: cp s) (simp_all add: Let_def)

lemma line_end_count [simp]: "backtick_count (line_end ln s) = backtick_count s"
  by (simp add: line_end_def)

lemma line_loop_count:
  "backtick_count (line_loop ln ls s) = backtick_count s + int (count_list (concat ls) BACKTICK)"
  by (induction ls arbitrary: ln s) (simp_all add: char_loop_count)

lemma concat_split_lines: "concat (split_lines cur t) = cur @ t"
  by (induction t arbitrary: cur) simp_all

lemma event_totals_append [simp]: "event_totals (xs @ ys) = event_totals xs @ event_totals ys"
  by (simp add: event_totals_def)
lemma event_positions_append [simp]: "event_positions n (xs @ ys) = event_positions n xs @ event_positions n ys"
  by (simp add: event_positions_def)
lemma warned_lines_append [simp]: "warned_lines (xs @ ys) = warned_lines xs @ warned_lines ys"
  by (simp add: warned_lines_def)

lemma event_totals_simps [simp]:
  "event_totals [] = []" "event_totals (m # ms) = event_total m @ event_totals ms"
  by (simp_all add: event_totals_def)

lemma event_positions_simps [simp]:
  "event_positions n [] = []"
  "event_positions n (m # ms) = event_position n m @ event_positions n ms"
  by (simp_all add: event_positions_def)

lemma warned_lines_simps [simp]:
  "warned_lines [] = []" "warned_lines (m # ms) = warning_line m @ warned_lines ms"
  by (simp_all add: warned_lines_def)

lemma stdout_text_simps [simp]:
  "stdout_text [] = []" "stdout_text (m # ms) = render m @ newline # stdout_text ms"
  by (simp_all add: stdout_text_def)

lemma show_int_0 [simp]: "show_int 0 = ''0''"
  by code_simp

lemma char_loop_totals:
  "event_totals (out (char_loop ln cp cs s)) =
     event_totals (out s) @ [backtick_count s + 1 .. backtick_count s + int (count_list cs BACKTICK)]"
proof (induction cs arbitrary: cp s)
  case Nil
  then show ?case by simp
next
  case (Cons ch rest)
  show ?case
  proof (cases "ch = BACKTICK")
    case True
    have "[backtick_count s + 1 .. backtick_count s + 1 + int (count_list rest BACKTICK)] =
          (backtick_count s + 1) # [backtick_count s + 1 + 1 .. backtick_count s + 1 + int (count_list rest BACKTICK)]"
      by (rule upto_rec1) simp
    with True show ?thesis by (simp add: Cons.IH Let_def add.assoc)
  next
    case False
    then show ?thesis by (simp add: Cons.IH)
  qed
qed

lemma char_loop_warned: "warned_lines (out (char_loop ln cp cs s)) = warned_lines (out s)"
  by (induction cs arbitrary: cp s) (simp_all add: Let_def)

lemma line_end_totals: "event_totals (out (line_end ln s)) = event_totals (out s)"
  by (simp add: line_end_def)

lemma upto_add_split:
  "0 \<le> a \<Longrightarrow> 0 \<le> b \<Longrightarrow> [c + 1 .. c + (a + b)] = [c + 1 .. c + a] @ [c + a + 1 .. c + (a + b)]"
  for a b c :: int
proof (cases "a = 0")
  case True
  then show ?thesis by simp
next
  case False
  assume "0 \<le> a" "0 \<le> b"
  with False show ?thesis by (intro upto_split2) simp_all
qed

lemma line_loop_totals:
  "event_totals (out (line_loop ln ls s)) =
     event_totals (out s) @ [backtick_count s + 1 .. backtick_count s + int (count_list (concat ls) BACKTICK)]"
proof (induction ls arbitrary: ln s)
  case Nil
  then show ?case by simp
next
  case (Cons l rest)
  let ?c = "backtick_count s"
  let ?a = "int (count_list l BACKTICK)"
  let ?b = "int (count_list (concat rest) BACKTICK)"
  have "[?c + 1 .. ?c + (?a + ?b)] = [?c + 1 .. ?c + ?a] @ [?c + ?a + 1 .. ?c + (?a + ?b)]"
    by (rule upto_add_split) simp_all
  then show ?case
    by (simp add: Cons.IH line_end_totals char_loop_totals char_loop_count add.assoc)
qed


lemma upt_Suc_shift: "[0..<Suc n] = 0 # map Suc [0..<n]"
  by (simp add: upt_conv_Cons map_Suc_upt del: upt_Suc)

lemma line_end_warned:
  "warned_lines (out (line_end ln s)) =
     warned_lines (out s) @ (if odd (backtick_count s) then [ln] else [])"
  by (simp add: line_end_def odd_iff_mod_2_eq_one)

lemma line_loop_warned:
  "warned_lines (out (line_loop ln ls s)) =
     warned_lines (out s) @
     map (\<lambda>k. ln + int k)
       (filter (\<lambda>k. odd (backtick_count s + int (count_list (concat (take (Suc k) ls)) BACKTICK)))
          [0..<length ls])"
proof (induction ls arbitrary: ln s)
  case Nil
  then show ?case by simp
next
  case (Cons l rest)
  show ?case
    unfolding length_Cons upt_Suc_shift
    by (simp add: Cons.IH line_end_warned char_loop_warned char_loop_count filter_map o_def
        add.assoc del: upt_Suc)
qed

lemma char_loop_positions_other:
  "n \<noteq> ln \<Longrightarrow> event_positions n (out (char_loop ln cp cs s)) = event_positions n (out s)"
  by (induction cs arbitrary: cp s) (simp_all add: Let_def)

lemma char_loop_positions:
  "event_positions ln (out (char_loop ln cp cs s)) =
     event_positions ln (out s) @
     map (\<lambda>i. cp + int i + 1) (filter (\<lambda>i. cs ! i = BACKTICK) [0..<length cs])"
proof (induction cs arbitrary: cp s)
  case Nil
  then show ?case by simp
next
  case (Cons ch rest)
  show ?case
    unfolding length_Cons upt_Suc_shift
    by (simp add: Cons.IH Let_def filter_map o_def add.assoc del: upt_Suc)
qed

lemma line_end_positions: "event_positions n (out (line_end ln s)) = event_positions n (out s)"
  by (simp add: line_end_def)

lemma line_loop_positions_before:
  "n < ln \<Longrightarrow> event_positions n (out (line_loop ln ls s)) = event_positions n (out s)"
  by (induction ls arbitrary: ln s)
     (simp_all add: line_end_positions char_loop_positions_other)

lemma line_loop_positions:
  "k < length ls \<Longrightarrow>
   event_positions (ln + int k) (out (line_loop ln ls s)) =
     event_positions (ln + int k) (out s) @ backtick_offsets (ls ! k)"
proof (induction ls arbitrary: ln s k)
  case Nil
  then show ?case by simp
next
  case (Cons l rest)
  show ?case
  proof (cases k)
    case 0
    then show ?thesis
      by (simp add: line_loop_positions_before line_end_positions char_loop_positions
          backtick_offsets_def)
  next
    case (Suc j)
    with Cons.prems have j: "j < length rest" by simp
    have "ln + 1 + int j = ln + int (Suc j)" by simp
    with Cons.IH [OF j, of "ln + 1"] Suc show ?thesis
      by (simp add: line_end_positions char_loop_positions_other)
  qed
qed


lemma digit_char_digit: "d < 10 \<Longrightarrow> digit_char d \<in> set ''0123456789''"
  unfolding digit_char_def by (rule nth_mem) simp

lemma show_nat_digits: "set (show_nat n) \<subseteq> set ''0123456789''"
proof (induction n rule: show_nat.induct)
  case (1 n)
  show ?case
  proof (cases "n < 10")
    case True
    then show ?thesis using digit_char_digit [of n] by (subst show_nat.simps) simp
  next
    case False
    have "n mod 10 < 10" by simp
    from digit_char_digit [OF this] 1 [OF False] False show ?thesis
      by (subst show_nat.simps) simp
  qed
qed

lemma newline_notin_show_int: "newline \<notin> set (show_int i)"
  using show_nat_digits [of "nat i"] show_nat_digits [of "nat (- i)"]
  by (auto simp: show_int_def newline_def)

lemma count_newline_show_int [simp]: "count_list (show_int i) newline = 0"
  using newline_notin_show_int by (simp add: count_list_0_iff)

lemma count_newline_render:
  "count_list (render m) newline = (if is_total m then 1 else 0)"
  by (cases m) (simp_all add: newline_def [symmetric] OK_MESSAGE_def ERROR_MESSAGE_def, simp_all add: newline_def)

lemma output_line_count_eq:
  "output_line_count msgs = length msgs + length (filter is_total msgs)"
  by (induction msgs) (simp_all add: output_line_count_def stdout_text_def count_newline_render)

lemma length_by_kind:
  "length msgs = length (filter is_event msgs) + length (filter is_warning msgs) +
     length (filter is_total msgs) + length (filter is_verdict msgs)"
proof (induction msgs)
  case Nil
  then show ?case by simp
next
  case (Cons m msgs)
  then show ?case by (cases m) simp_all
qed

lemma length_event_totals: "length (event_totals msgs) = length (filter is_event msgs)"
proof (induction msgs)
  case Nil
  then show ?case by (simp add: event_totals_def)
next
  case (Cons m msgs)
  then show ?case by (cases m) (simp_all add: event_totals_def)
qed

lemma length_warned_lines: "length (warned_lines msgs) = length (filter is_warning msgs)"
proof (induction msgs)
  case Nil
  then show ?case by (simp add: warned_lines_def)
next
  case (Cons m msgs)
  then show ?case by (cases m) (simp_all add: warned_lines_def)
qed

lemma set_warned_lines: "n \<in> set (warned_lines msgs) \<longleftrightarrow> Warning n \<in> set msgs"
proof (induction msgs)
  case Nil
  then show ?case by (simp add: warned_lines_def)
next
  case (Cons m msgs)
  then show ?case by (cases m) (auto simp: warned_lines_def)
qed

lemma char_loop_summary_kinds:
  "filter is_total (out (char_loop ln cp cs s)) = filter is_total (out s)"
  "filter is_verdict (out (char_loop ln cp cs s)) = filter is_verdict (out s)"
  by (induction cs arbitrary: cp s) (simp_all add: Let_def)

lemma line_loop_summary_kinds:
  "filter is_total (out (line_loop ln ls s)) = filter is_total (out s)"
  "filter is_verdict (out (line_loop ln ls s)) = filter is_verdict (out s)"
  by (induction ls arbitrary: ln s) (simp_all add: line_end_def char_loop_summary_kinds)

lemma out_summary:
  "out (summary s) =
     out s @ [Total (backtick_count s), if even (backtick_count s) then VerdictOK else VerdictError]"
  by (simp add: summary_def Let_def odd_iff_mod_2_eq_one [symmetric])

lemma count_summary [simp]: "backtick_count (summary s) = backtick_count s"
  by (simp add: summary_def Let_def)

lemma char_loop_append:
  "char_loop ln cp (xs @ ys) s = char_loop ln (cp + int (length xs)) ys (char_loop ln cp xs s)"
  by (induction xs arbitrary: cp s) (simp_all add: add.assoc)

lemma char_loop_strip_terminator: "char_loop ln cp (strip_terminator l) s = char_loop ln cp l s"
proof (cases "l \<noteq> [] \<and> last l = LF")
  case True
  then have "l = butlast l @ [LF]" by (metis append_butlast_last_id)
  then have "char_loop ln cp l s = char_loop ln cp (butlast l @ [LF]) s" by simp
  also have "\<dots> = char_loop ln cp (butlast l) s"
    unfolding char_loop_append by (simp add: LF_def BACKTICK_def)
  finally show ?thesis using True by (simp add: strip_terminator_def)
next
  case False
  then show ?thesis by (auto simp: strip_terminator_def)
qed

lemma line_loop_strip_terminator: "line_loop ln (map strip_terminator ls) s = line_loop ln ls s"
  by (induction ls arbitrary: ln s) (simp_all add: char_loop_strip_terminator)

lemma CR_notin_universal_newlines: "CR \<notin> set (universal_newlines t)"
  by (induction t rule: universal_newlines.induct) (auto simp: CR_def LF_def)

lemma split_lines_shape:
  "LF \<notin> set cur \<Longrightarrow> l \<in> set (split_lines cur t) \<Longrightarrow> l \<noteq> [] \<and> LF \<notin> set (butlast l)"
proof (induction t arbitrary: cur)
  case Nil
  then have "l = cur" "cur \<noteq> []" by (simp_all split: if_splits)
  with Nil.prems(1) show ?case by (auto dest: in_set_butlastD)
next
  case (Cons c cs)
  show ?case
  proof (cases "c = LF")
    case True
    with Cons.prems(2) consider "l = cur @ [LF]" | "l \<in> set (split_lines [] cs)" by auto
    then show ?thesis
    proof cases
      case 1
      with Cons.prems(1) show ?thesis by simp
    next
      case 2
      then show ?thesis by (intro Cons.IH [of "[]"]) simp_all
    qed
  next
    case False
    with Cons.prems show ?thesis by (intro Cons.IH [of "cur @ [c]"]) simp_all
  qed
qed

lemma readlines_shape:
  assumes "l \<in> set (readlines t)"
  shows "l \<noteq> []" "LF \<notin> set (strip_terminator l)" "CR \<notin> set l"
    "l = strip_terminator l \<or> l = strip_terminator l @ [LF]"
proof -
  from assms have l: "l \<noteq> [] \<and> LF \<notin> set (butlast l)"
    unfolding readlines_def by (intro split_lines_shape [of "[]"]) simp_all
  then show "l \<noteq> []" by simp
  from l have "l = butlast l @ [last l]" by simp
  then have "set l = set (butlast l) \<union> {last l}" by (metis set_append list.set(1,2) Un_insert_right sup_bot.right_neutral)
  with l show "LF \<notin> set (strip_terminator l)" by (auto simp: strip_terminator_def)
  have "set l \<subseteq> set (concat (readlines t))" using assms by auto
  then show "CR \<notin> set l"
    using CR_notin_universal_newlines [of t] by (auto simp: readlines_def concat_split_lines)
  show "l = strip_terminator l \<or> l = strip_terminator l @ [LF]"
    using l by (auto simp: strip_terminator_def) (metis append_butlast_last_id)
qed


lemma line_loop_append:
  "line_loop ln (xs @ ys) s = line_loop (ln + int (length xs)) ys (line_loop ln xs s)"
  by (induction xs arbitrary: ln s) (simp_all add: add.assoc)

lemma count_universal_newlines:
  "count_list (universal_newlines t) BACKTICK = count_list t BACKTICK"
  by (induction t rule: universal_newlines.induct) (auto simp: BACKTICK_def LF_def CR_def)

lemma concat_readlines: "concat (readlines t) = universal_newlines t"
  by (simp add: readlines_def concat_split_lines)

lemma count_readlines: "count_list (concat (readlines t)) BACKTICK = count_list t BACKTICK"
  by (simp add: concat_readlines count_universal_newlines)

lemma init_state_simps [simp]: "backtick_count init_state = 0" "out init_state = []"
  by (simp_all add: init_state_def)

lemma count_scan_lines:
  "backtick_count (line_loop 1 (readlines text) init_state) = int (count_list text BACKTICK)"
  by (simp add: line_loop_count count_readlines)

lemma out_scan:
  "out (scan (readlines text)) =
     out (line_loop 1 (readlines text) init_state) @
     [Total (int (count_list text BACKTICK)),
      if even (count_list text BACKTICK) then VerdictOK else VerdictError]"
  by (simp add: scan_def out_summary count_scan_lines)

lemma messages_differ: "OK_MESSAGE \<noteq> ERROR_MESSAGE"
  by (simp add: OK_MESSAGE_def ERROR_MESSAGE_def)

section \<open>The claims of the specification\<close>

text \<open>
  Claim C1. When the file is read successfully, the run ends without exception and the
  last thing it prints is the verdict, the only verdict of the run: it is the OK message
  if and only if the number of backticks of the file is even, and the error message if and
  only if that number is odd.
\<close>

theorem final_verdict_parity:
  assumes "fs filename = Inr text"
  shows "let r = find_unclosed_backtick fs filename; n = count_list text BACKTICK in
     raised r = None \<and> printed r \<noteq> [] \<and>
     filter is_verdict (printed r) = [last (printed r)] \<and>
     (render (last (printed r)) = OK_MESSAGE \<longleftrightarrow> even n) \<and>
     (render (last (printed r)) = ERROR_MESSAGE \<longleftrightarrow> odd n)"
  using assms messages_differ
  by (simp add: find_unclosed_backtick_def out_scan line_loop_summary_kinds
      eq_commute [of ERROR_MESSAGE])

theorem final_verdict_parity_witness:
  "single_file target scenario1 target = Inr scenario1 \<and>
   odd (count_list scenario1 BACKTICK) \<and>
   render (last (printed (find_unclosed_backtick (single_file target scenario1) target))) =
     ERROR_MESSAGE \<and>
   single_file target scenario2 target = Inr scenario2 \<and>
   even (count_list scenario2 BACKTICK) \<and>
   render (last (printed (find_unclosed_backtick (single_file target scenario2) target))) =
     OK_MESSAGE"
proof -
  have h1: "single_file target scenario1 target = Inr scenario1"
    and h2: "single_file target scenario2 target = Inr scenario2"
    by (simp_all add: single_file_def)
  have p: "odd (count_list scenario1 BACKTICK)" "even (count_list scenario2 BACKTICK)"
    by (simp_all add: scenario1_def scenario2_def BACKTICK_def)
  from final_verdict_parity [of "single_file target scenario1" target scenario1, OF h1]
    final_verdict_parity [of "single_file target scenario2" target scenario2, OF h2] h1 h2 p
  show ?thesis by (simp add: Let_def)
qed

text \<open>
  Claim C6. When the file cannot be opened (the path does not exist or is unreadable), the
  run ends with that error and has printed nothing: no event, no warning, no total line
  and no verdict.
\<close>

theorem open_failure_prints_nothing:
  assumes "fs filename = Inl e"
  shows "let r = find_unclosed_backtick fs filename in
     raised r = Some e \<and> printed r = [] \<and> stdout_text (printed r) = [] \<and>
     filter is_event (printed r) = [] \<and> filter is_warning (printed r) = [] \<and>
     filter is_total (printed r) = [] \<and> filter is_verdict (printed r) = []"
  using assms by (simp add: find_unclosed_backtick_def)

theorem open_failure_prints_nothing_witness:
  "single_file ''other.tsx'' scenario1 target = Inl FileNotFoundError \<and>
   raised (main (single_file ''other.tsx'' scenario1)) = Some FileNotFoundError \<and>
   printed (main (single_file ''other.tsx'' scenario1)) = [] \<and>
   stdout_text (printed (main (single_file ''other.tsx'' scenario1))) = []"
proof -
  have h: "single_file ''other.tsx'' scenario1 target = Inl FileNotFoundError"
    by (simp add: single_file_def target_def)
  from open_failure_prints_nothing [of "single_file ''other.tsx'' scenario1" target, OF h] h
  show ?thesis by (simp add: Let_def main_def target_def)
qed

text \<open>
  Claim C3. When the file is read successfully, the number of event lines printed is the
  number of backticks of the file, and the totals the events report are 1, 2, 3, ... in
  the order they are printed: the event at index \<open>k\<close> (from 0) reports \<open>k + 1\<close>.
\<close>

theorem events_count_and_totals:
  assumes "fs filename = Inr text"
  shows "let r = find_unclosed_backtick fs filename; n = count_list text BACKTICK in
     length (filter is_event (printed r)) = n \<and>
     event_totals (printed r) = [1..int n] \<and>
     (\<forall>k<n. event_totals (printed r) ! k = int k + 1)"
proof -
  let ?r = "find_unclosed_backtick fs filename"
  let ?n = "count_list text BACKTICK"
  have t: "event_totals (printed ?r) = [1..int ?n]"
    using assms
    by (simp add: find_unclosed_backtick_def out_scan line_loop_totals count_readlines)
  have "length (filter is_event (printed ?r)) = length [1..int ?n]"
    unfolding t [symmetric] by (rule length_event_totals [symmetric])
  then have l: "length (filter is_event (printed ?r)) = ?n" by simp
  have "\<forall>k<?n. [1..int ?n] ! k = int k + 1" by simp
  with t l show ?thesis by (simp add: Let_def)
qed

theorem events_count_and_totals_witness:
  "single_file target scenario2 target = Inr scenario2 \<and>
   count_list scenario2 BACKTICK = 2 \<and>
   length (filter is_event (printed (find_unclosed_backtick (single_file target scenario2) target))) = 2 \<and>
   event_totals (printed (find_unclosed_backtick (single_file target scenario2) target)) = [1, 2]"
proof -
  have h: "single_file target scenario2 target = Inr scenario2"
    by (simp add: single_file_def)
  have c: "count_list scenario2 BACKTICK = 2"
    by (simp add: scenario2_def BACKTICK_def)
  have u: "[1..2::int] = [1, 2]" by (simp add: upto.simps)
  from events_count_and_totals [of "single_file target scenario2" target scenario2, OF h] h c u
  show ?thesis by (simp add: Let_def)
qed

text \<open>
  Claim C5. When the file has no backtick (the empty file included), the run prints no
  event and no warning; its whole output is the blank line, the total 0 and the OK
  verdict.
\<close>

lemma char_loop_no_backtick: "BACKTICK \<notin> set cs \<Longrightarrow> char_loop ln cp cs s = s"
  by (induction cs arbitrary: cp) auto

lemma line_loop_no_backtick:
  "BACKTICK \<notin> set (concat ls) \<Longrightarrow> even (backtick_count s) \<Longrightarrow> line_loop ln ls s = s"
  by (induction ls arbitrary: ln) (auto simp: char_loop_no_backtick line_end_def)

lemma backtick_in_readlines: "BACKTICK \<in> set (concat (readlines text)) \<longleftrightarrow> BACKTICK \<in> set text"
  using count_readlines [of "text"] by (metis count_list_0_iff)

theorem no_backticks_output:
  assumes "fs filename = Inr text" and "BACKTICK \<notin> set text"
  shows "let r = find_unclosed_backtick fs filename in
     raised r = None \<and> printed r = [Total 0, VerdictOK] \<and>
     filter is_event (printed r) = [] \<and> filter is_warning (printed r) = [] \<and>
     stdout_text (printed r) =
       [newline] @ ''Total backticks: 0'' @ [newline] @ OK_MESSAGE @ [newline]"
proof -
  from assms(2) have "BACKTICK \<notin> set (concat (readlines text))"
    by (simp only: backtick_in_readlines not_False_eq_True)
  then have "line_loop 1 (readlines text) init_state = init_state"
    by (rule line_loop_no_backtick) simp
  then show ?thesis using assms
    by (simp add: find_unclosed_backtick_def scan_def out_summary)
qed

theorem no_backticks_output_witness:
  "single_file target [] target = Inr [] \<and> BACKTICK \<notin> set [] \<and>
   printed (find_unclosed_backtick (single_file target []) target) = [Total 0, VerdictOK] \<and>
   stdout_text (printed (find_unclosed_backtick (single_file target []) target)) =
     [newline] @ ''Total backticks: 0'' @ [newline] @ OK_MESSAGE @ [newline]"
proof -
  have h: "single_file target [] target = Inr []"
    by (simp add: single_file_def)
  have b: "BACKTICK \<notin> set []" by simp
  from no_backticks_output [of "single_file target []" target "[]", OF h b] h
  show ?thesis by (simp add: Let_def)
qed


lemma after_lines_count:
  "backtick_count (after_lines ls i) = int (count_list (concat (take i ls)) BACKTICK)"
  by (simp add: after_lines_def line_loop_count)

lemma after_lines_resume:
  "line_loop 1 ls init_state = line_loop (1 + int i) (drop i ls) (after_lines ls i)"
proof (cases "i \<le> length ls")
  case True
  have "line_loop 1 (take i ls @ drop i ls) init_state =
        line_loop (1 + int (length (take i ls))) (drop i ls) (line_loop 1 (take i ls) init_state)"
    by (rule line_loop_append)
  with True show ?thesis by (simp add: after_lines_def min_absorb2)
next
  case False
  then show ?thesis by (simp add: after_lines_def)
qed

lemma after_lines_mono:
  "backtick_count (after_lines ls i) \<le> backtick_count (after_lines ls (i + k))"
  by (simp add: after_lines_count take_add)

text \<open>
  Claim C2. The counter starts at zero, and after the scan has processed the first \<open>i\<close>
  lines its value is the number of backticks in these lines (\<open>after_lines\<close> is the
  state the full scan resumes from, by \<open>after_lines_resume\<close>). The counter never
  decreases: not from one line to a later one, and not in any step of the scan (the
  characters of a line, the check at the end of a line, the summary).
\<close>

theorem counter_invariant:
  "backtick_count init_state = 0 \<and>
   after_lines ls 0 = init_state \<and>
   backtick_count (after_lines ls i) = int (count_list (concat (take i ls)) BACKTICK) \<and>
   backtick_count (after_lines ls i) \<le> backtick_count (after_lines ls (i + k)) \<and>
   backtick_count s \<le> backtick_count (char_loop ln cp cs s) \<and>
   backtick_count (line_end ln s) = backtick_count s \<and>
   backtick_count (summary s) = backtick_count s"
proof -
  have "after_lines ls 0 = init_state" by (simp add: after_lines_def)
  moreover have "backtick_count s \<le> backtick_count (char_loop ln cp cs s)"
    by (simp add: char_loop_count)
  moreover note after_lines_count [of ls i] after_lines_mono [of ls i k]
  ultimately show ?thesis by simp
qed

lemma readlines_scenario3: "readlines scenario3 = [[96, 97, 10], [98, 96]]"
  by (simp add: readlines_def scenario3_def LF_def CR_def)

theorem counter_invariant_witness:
  "backtick_count (after_lines (readlines scenario3) 0) = 0 \<and>
   backtick_count (after_lines (readlines scenario3) 1) = 1 \<and>
   backtick_count (after_lines (readlines scenario3) 2) = 2 \<and>
   backtick_count (after_lines (readlines scenario3) 1) \<le>
     backtick_count (after_lines (readlines scenario3) (1 + 1))"
  using counter_invariant [of "readlines scenario3" 0 0]
    counter_invariant [of "readlines scenario3" 1 1]
    counter_invariant [of "readlines scenario3" 2 0]
  by (simp add: readlines_scenario3 BACKTICK_def)

lemma upto_as_upt: "[1..int n] = map (\<lambda>k. 1 + int k) [0..<n]"
proof (induction n)
  case 0
  then show ?case by simp
next
  case (Suc n)
  have "[1..int (Suc n)] = [1..int (Suc n) - 1] @ [int (Suc n)]"
    by (rule upto_rec2) simp
  with Suc show ?case by simp
qed

lemma warned_lines_scan:
  "warned_lines (out (scan ls)) =
     filter (\<lambda>i. odd (backtick_count (after_lines ls (nat i)))) [1..int (length ls)]"
proof -
  have "nat (1 + int k) = Suc k" for k by simp
  then show ?thesis
    by (simp add: scan_def out_summary line_loop_warned upto_as_upt filter_map o_def
        after_lines_count)
qed

lemma warning_printed_iff:
  "Warning i \<in> set (out (scan ls)) \<longleftrightarrow>
     1 \<le> i \<and> i \<le> int (length ls) \<and> odd (backtick_count (after_lines ls (nat i)))"
  unfolding set_warned_lines [symmetric] warned_lines_scan by auto

text \<open>
  Claim C4. When the file is read successfully, the warnings printed are, in order and
  once each, the numbers of the lines at whose end the cumulative counter is odd: a
  warning for line \<open>i\<close> is printed if and only if \<open>i\<close> is a line of the file and the
  counter is odd after line \<open>i\<close>. For the two lines \<^verbatim>\<open>`a\<close> and \<^verbatim>\<open>b`\<close> the output
  has a warning for line 1 only, and the verdict is OK.
\<close>

theorem warning_iff_counter_odd:
  assumes "fs filename = Inr text"
  shows "let r = find_unclosed_backtick fs filename; ls = readlines text in
     warned_lines (printed r) =
       filter (\<lambda>i. odd (backtick_count (after_lines ls (nat i)))) [1..int (length ls)] \<and>
     (\<forall>i. Warning i \<in> set (printed r) \<longleftrightarrow>
        1 \<le> i \<and> i \<le> int (length ls) \<and> odd (backtick_count (after_lines ls (nat i)))) \<and>
     printed (find_unclosed_backtick (single_file target scenario3) target) =
       [Found 1 1 1, Warning 1, Found 2 2 2, Total 2, VerdictOK]"
proof -
  have "printed (find_unclosed_backtick (single_file target scenario3) target) =
       [Found 1 1 1, Warning 1, Found 2 2 2, Total 2, VerdictOK]"
    by (simp add: find_unclosed_backtick_def single_file_def readlines_scenario3 scan_def
        summary_def line_end_def init_state_def BACKTICK_def Let_def)
  with assms show ?thesis
    by (simp add: find_unclosed_backtick_def warned_lines_scan warning_printed_iff)
qed

theorem warning_iff_counter_odd_witness:
  "single_file target scenario1 target = Inr scenario1 \<and>
   readlines scenario1 = [scenario1] \<and>
   backtick_count (after_lines (readlines scenario1) 1) = 1 \<and>
   Warning 1 \<in> set (printed (find_unclosed_backtick (single_file target scenario1) target)) \<and>
   Warning 2 \<notin> set (printed (find_unclosed_backtick (single_file target scenario1) target)) \<and>
   warned_lines (printed (find_unclosed_backtick (single_file target scenario1) target)) = [1]"
proof -
  have h: "single_file target scenario1 target = Inr scenario1"
    by (simp add: single_file_def)
  have l: "readlines scenario1 = [scenario1]"
    by (simp add: readlines_def scenario1_def LF_def CR_def)
  have c: "backtick_count (after_lines (readlines scenario1) 1) = 1"
    by (simp add: l after_lines_count) (simp add: scenario1_def BACKTICK_def)
  have u: "[1..1::int] = [1]" by (simp add: upto.simps)
  from warning_iff_counter_odd [of "single_file target scenario1" target scenario1, OF h] h l c u
  show ?thesis by (simp add: Let_def)
qed


lemma events_scan:
  "length (filter is_event (out (scan (readlines t)))) = count_list t BACKTICK"
proof -
  have "event_totals (out (scan (readlines t))) = [1..int (count_list t BACKTICK)]"
    by (simp add: out_scan line_loop_totals count_readlines)
  then have "length (event_totals (out (scan (readlines t)))) = count_list t BACKTICK"
    by simp
  then show ?thesis by (simp only: length_event_totals)
qed

lemma warnings_scan_le: "length (filter is_warning (out (scan ls))) \<le> length ls"
proof -
  have "length (warned_lines (out (scan ls))) \<le> length [1..int (length ls)]"
    unfolding warned_lines_scan by (rule length_filter_le)
  then show ?thesis by (simp add: length_warned_lines)
qed

lemma scan_line_count:
  "output_line_count (out (scan (readlines t))) =
     count_list t BACKTICK + length (filter is_warning (out (scan (readlines t)))) + 3"
proof -
  let ?msgs = "out (scan (readlines t))"
  have t: "length (filter is_total ?msgs) = 1" and v: "length (filter is_verdict ?msgs) = 1"
    by (simp_all add: out_scan line_loop_summary_kinds)
  have "output_line_count ?msgs = length ?msgs + length (filter is_total ?msgs)"
    by (rule output_line_count_eq)
  also have "length ?msgs = length (filter is_event ?msgs) + length (filter is_warning ?msgs) +
     length (filter is_total ?msgs) + length (filter is_verdict ?msgs)"
    by (rule length_by_kind)
  finally show ?thesis by (simp add: t v events_scan)
qed

lemma scan_body_kinds:
  "filter (\<lambda>m. is_total m \<or> is_verdict m) (out (line_loop ln ls s)) =
     filter (\<lambda>m. is_total m \<or> is_verdict m) (out s)"
proof -
  have c: "filter (\<lambda>m. is_total m \<or> is_verdict m) (out (char_loop n cp cs s')) =
      filter (\<lambda>m. is_total m \<or> is_verdict m) (out s')" for n cp cs s'
    by (induction cs arbitrary: cp s') (simp_all add: Let_def)
  show ?thesis
    by (induction ls arbitrary: ln s) (simp_all add: line_end_def c)
qed

text \<open>
  Claim C8, as amended. The lines on standard output are the newline characters written.
  When the file is read successfully their number is exactly one per backtick, plus one
  per warning (at most one per input line), plus three at the end of the run: the blank
  line, the total line and the verdict line, which the two last \<^verbatim>\<open>print\<close> calls
  write after the events and warnings. The bound with two trailing lines, as the claim
  states it, fails on the empty file, whose output has three lines.
\<close>

theorem output_line_count_bound:
  assumes "fs filename = Inr text"
  shows "let r = find_unclosed_backtick fs filename; n = count_list text BACKTICK;
         w = length (filter is_warning (printed r)); body = butlast (butlast (printed r)) in
     output_line_count (printed r) = n + w + 3 \<and>
     w \<le> length (readlines text) \<and>
     output_line_count (printed r) \<le> n + length (readlines text) + 3 \<and>
     filter (\<lambda>m. is_total m \<or> is_verdict m) body = [] \<and>
     stdout_text (printed r) =
       stdout_text body @ [newline] @ ''Total backticks: '' @ show_int (int n) @ [newline] @
       (if even n then OK_MESSAGE else ERROR_MESSAGE) @ [newline]"
proof -
  let ?msgs = "out (scan (readlines text))"
  let ?body = "out (line_loop 1 (readlines text) init_state)"
  have b: "butlast (butlast ?msgs) = ?body"
    by (simp add: out_scan butlast_append)
  have k: "filter (\<lambda>m. is_total m \<or> is_verdict m) ?body = []"
    by (simp add: scan_body_kinds)
  have s: "stdout_text ?msgs =
       stdout_text ?body @ [newline] @ ''Total backticks: '' @
       show_int (int (count_list text BACKTICK)) @ [newline] @
       (if even (count_list text BACKTICK) then OK_MESSAGE else ERROR_MESSAGE) @ [newline]"
    by (simp add: out_scan stdout_text_def)
  from scan_line_count [of "text"] warnings_scan_le [of "readlines text"]
  have "output_line_count ?msgs \<le> count_list text BACKTICK + length (readlines text) + 3"
    by simp
  with assms scan_line_count [of "text"] warnings_scan_le [of "readlines text"] k s
  show ?thesis
    unfolding Let_def find_unclosed_backtick_def
    by (simp only: sum.case run_result.simps b)
qed

theorem output_line_count_bound_witness:
  "single_file target scenario1 target = Inr scenario1 \<and>
   count_list scenario1 BACKTICK = 1 \<and>
   length (filter is_warning (printed (find_unclosed_backtick (single_file target scenario1) target))) = 1 \<and>
   output_line_count (printed (find_unclosed_backtick (single_file target scenario1) target)) = 5"
proof -
  have h: "single_file target scenario1 target = Inr scenario1"
    by (simp add: single_file_def)
  have c: "count_list scenario1 BACKTICK = 1"
    by (simp add: scenario1_def BACKTICK_def)
  have l: "readlines scenario1 = [scenario1]"
    by (simp add: readlines_def scenario1_def LF_def CR_def)
  have w: "length (filter is_warning (printed (find_unclosed_backtick (single_file target scenario1) target))) = 1"
    by (simp add: find_unclosed_backtick_def h l scan_def summary_def line_end_def Let_def)
       (simp add: scenario1_def BACKTICK_def init_state_def Let_def)
  from output_line_count_bound [of "single_file target scenario1" target scenario1, OF h] h c w
  show ?thesis by (simp add: Let_def)
qed

theorem two_summary_lines_counterexample:
  "output_line_count (printed (find_unclosed_backtick (single_file target []) target)) = 3 \<and>
   count_list [] BACKTICK = 0 \<and> length (readlines []) = 0 \<and>
   \<not> output_line_count (printed (find_unclosed_backtick (single_file target []) target))
       \<le> count_list [] BACKTICK + length (readlines []) + 2"
  by (simp add: find_unclosed_backtick_def single_file_def readlines_def scan_def out_summary
      output_line_count_eq)


lemma after_lines_quiet:
  assumes "i \<le> k" and "k \<le> j"
    and "\<forall>l \<in> set (take (j - i) (drop i ls)). BACKTICK \<notin> set l"
  shows "backtick_count (after_lines ls k) = backtick_count (after_lines ls i)"
proof -
  from assms(1) have k: "k = i + (k - i)" by simp
  have "set (take (k - i) (drop i ls)) \<subseteq> set (take (j - i) (drop i ls))"
    using assms(2) by (intro set_take_subset_set_take) simp
  with assms(3) have "BACKTICK \<notin> set (concat (take (k - i) (drop i ls)))" by auto
  then have "count_list (concat (take (k - i) (drop i ls))) BACKTICK = 0"
    by (simp add: count_list_0_iff)
  then have "backtick_count (after_lines ls (i + (k - i))) = backtick_count (after_lines ls i)"
    by (simp add: after_lines_count take_add)
  with k show ?thesis by simp
qed

text \<open>
  Claim C9. The parity check reads the cumulative counter, so a warning cascades: when the
  counter is odd after line \<open>i\<close> and the lines \<open>i + 1\<close> to \<open>j\<close> of the file have no
  backtick, a warning is printed for every line from \<open>i\<close> to \<open>j\<close>.
\<close>

theorem warning_cascade:
  assumes "fs filename = Inr text"
    and "i \<le> j" and "j \<le> length (readlines text)"
    and "odd (backtick_count (after_lines (readlines text) i))"
    and "\<forall>l \<in> set (take (j - i) (drop i (readlines text))). BACKTICK \<notin> set l"
  shows "\<forall>k. i \<le> k \<and> k \<le> j \<longrightarrow>
     Warning (int k) \<in> set (printed (find_unclosed_backtick fs filename))"
proof (intro allI impI)
  fix k
  assume k: "i \<le> k \<and> k \<le> j"
  have i: "1 \<le> i"
  proof (rule ccontr)
    assume "\<not> 1 \<le> i"
    then have "i = 0" by simp
    with assms(4) show False by (simp add: after_lines_count)
  qed
  from k have "backtick_count (after_lines (readlines text) k) =
      backtick_count (after_lines (readlines text) i)"
    using assms(5) by (intro after_lines_quiet [of i k j]) simp_all
  with assms(4) have "odd (backtick_count (after_lines (readlines text) (nat (int k))))"
    by simp
  moreover from k i assms(3) have "1 \<le> int k" "int k \<le> int (length (readlines text))"
    by simp_all
  ultimately have "Warning (int k) \<in> set (out (scan (readlines text)))"
    by (simp only: warning_printed_iff simp_thms)
  with assms(1) show "Warning (int k) \<in> set (printed (find_unclosed_backtick fs filename))"
    by (simp add: find_unclosed_backtick_def)
qed

lemma readlines_cascade_text: "readlines cascade_text = [[96, 10], [97, 10], [98, 10]]"
  by (simp add: readlines_def cascade_text_def LF_def CR_def)

theorem warning_cascade_witness:
  "single_file target cascade_text target = Inr cascade_text \<and>
   length (readlines cascade_text) = 3 \<and>
   odd (backtick_count (after_lines (readlines cascade_text) 1)) \<and>
   BACKTICK \<notin> set (readlines cascade_text ! 1) \<and>
   BACKTICK \<notin> set (readlines cascade_text ! 2) \<and>
   Warning 1 \<in> set (printed (find_unclosed_backtick (single_file target cascade_text) target)) \<and>
   Warning 2 \<in> set (printed (find_unclosed_backtick (single_file target cascade_text) target)) \<and>
   Warning 3 \<in> set (printed (find_unclosed_backtick (single_file target cascade_text) target))"
proof -
  have h: "single_file target cascade_text target = Inr cascade_text"
    by (simp add: single_file_def)
  have o: "odd (backtick_count (after_lines (readlines cascade_text) 1))"
    by (simp add: after_lines_count readlines_cascade_text BACKTICK_def)
  have q: "\<forall>l \<in> set (take (3 - 1) (drop 1 (readlines cascade_text))). BACKTICK \<notin> set l"
    by (simp add: readlines_cascade_text BACKTICK_def)
  have n: "(1::nat) \<le> 3" "3 \<le> length (readlines cascade_text)"
    by (simp_all add: readlines_cascade_text)
  note w = warning_cascade [of "single_file target cascade_text" target cascade_text 1 3,
      OF h n o q, rule_format]
  from w [of 1] w [of 2] w [of 3] h o
  show ?thesis by (simp add: readlines_cascade_text BACKTICK_def)
qed


lemma scan_strip_terminator: "scan (map strip_terminator ls) = scan ls"
  by (simp add: scan_def line_loop_strip_terminator)

lemma count_strip_terminator:
  "count_list (strip_terminator l) BACKTICK = count_list l BACKTICK"
proof (cases "l \<noteq> [] \<and> last l = LF")
  case True
  then have "l = butlast l @ [LF]" by (metis append_butlast_last_id)
  then have "count_list l BACKTICK = count_list (butlast l @ [LF]) BACKTICK" by simp
  also have "\<dots> = count_list (butlast l) BACKTICK" by (simp add: LF_def BACKTICK_def)
  finally show ?thesis using True by (simp add: strip_terminator_def)
next
  case False
  then show ?thesis by (auto simp: strip_terminator_def)
qed

lemma scan_positions:
  assumes "k < length ls"
  shows "event_positions (int k + 1) (out (scan ls)) = backtick_offsets (strip_terminator (ls ! k))"
proof -
  from assms have k: "k < length (map strip_terminator ls)" by simp
  have "event_positions (1 + int k) (out (line_loop 1 (map strip_terminator ls) init_state)) =
      event_positions (1 + int k) (out init_state) @ backtick_offsets (map strip_terminator ls ! k)"
    using k by (rule line_loop_positions)
  with assms have "event_positions (int k + 1) (out (scan (map strip_terminator ls))) =
      backtick_offsets (strip_terminator (ls ! k))"
    by (simp add: scan_def out_summary add.commute)
  then show ?thesis by (simp only: scan_strip_terminator)
qed

text \<open>
  Claim C10. The lines that \<^verbatim>\<open>readlines()\<close> returns keep their terminator: a line is
  its characters without terminator, followed by at most one \<^verbatim>\<open>\n\<close>, and there is no
  other \<^verbatim>\<open>\n\<close> and no \<^verbatim>\<open>\r\<close> in it. A backtick is neither, so the positions
  reported for a line are the 1-based offsets of the backticks among its characters
  without terminator, the counter grows over a line by the number of backticks among
  these characters, and the whole output is what the scan of the lines without their
  terminators prints.
\<close>

theorem positions_exclude_terminator:
  assumes "fs filename = Inr text"
  shows "let r = find_unclosed_backtick fs filename; ls = readlines text in
     BACKTICK \<noteq> LF \<and> BACKTICK \<noteq> CR \<and>
     printed r = out (scan (map strip_terminator ls)) \<and>
     (\<forall>k<length ls.
        (ls ! k = strip_terminator (ls ! k) \<or> ls ! k = strip_terminator (ls ! k) @ [LF]) \<and>
        LF \<notin> set (strip_terminator (ls ! k)) \<and> CR \<notin> set (ls ! k) \<and>
        event_positions (int k + 1) (printed r) = backtick_offsets (strip_terminator (ls ! k)) \<and>
        backtick_count (after_lines ls (Suc k)) =
          backtick_count (after_lines ls k) + int (count_list (strip_terminator (ls ! k)) BACKTICK))"
proof -
  let ?ls = "readlines text"
  have r: "printed (find_unclosed_backtick fs filename) = out (scan ?ls)"
    using assms by (simp add: find_unclosed_backtick_def)
  have "\<forall>k<length ?ls.
        (?ls ! k = strip_terminator (?ls ! k) \<or> ?ls ! k = strip_terminator (?ls ! k) @ [LF]) \<and>
        LF \<notin> set (strip_terminator (?ls ! k)) \<and> CR \<notin> set (?ls ! k) \<and>
        event_positions (int k + 1) (out (scan ?ls)) = backtick_offsets (strip_terminator (?ls ! k)) \<and>
        backtick_count (after_lines ?ls (Suc k)) =
          backtick_count (after_lines ?ls k) + int (count_list (strip_terminator (?ls ! k)) BACKTICK)"
  proof (intro allI impI)
    fix k
    assume k: "k < length ?ls"
    then have m: "?ls ! k \<in> set ?ls" by simp
    have "take (Suc k) ?ls = take k ?ls @ [?ls ! k]"
      using k by (rule take_Suc_conv_app_nth)
    then have "backtick_count (after_lines ?ls (Suc k)) =
          backtick_count (after_lines ?ls k) + int (count_list (strip_terminator (?ls ! k)) BACKTICK)"
      by (simp add: after_lines_count count_strip_terminator)
    with readlines_shape(2-4) [OF m] scan_positions [OF k]
    show "(?ls ! k = strip_terminator (?ls ! k) \<or> ?ls ! k = strip_terminator (?ls ! k) @ [LF]) \<and>
        LF \<notin> set (strip_terminator (?ls ! k)) \<and> CR \<notin> set (?ls ! k) \<and>
        event_positions (int k + 1) (out (scan ?ls)) = backtick_offsets (strip_terminator (?ls ! k)) \<and>
        backtick_count (after_lines ?ls (Suc k)) =
          backtick_count (after_lines ?ls k) + int (count_list (strip_terminator (?ls ! k)) BACKTICK)"
      by blast
  qed
  moreover have "BACKTICK \<noteq> LF" "BACKTICK \<noteq> CR" by (simp_all add: BACKTICK_def LF_def CR_def)
  ultimately show ?thesis
    unfolding Let_def r scan_strip_terminator by blast
qed

lemma readlines_crlf_text: "readlines crlf_text = [[97, 96, 10], [96, 96, 10], [98]]"
  by (simp add: readlines_def crlf_text_def LF_def CR_def)

theorem positions_exclude_terminator_witness:
  "single_file target crlf_text target = Inr crlf_text \<and>
   readlines crlf_text = [[97, 96, 10], [96, 96, 10], [98]] \<and>
   strip_terminator (readlines crlf_text ! 0) = [97, 96] \<and>
   strip_terminator (readlines crlf_text ! 1) = [96, 96] \<and>
   event_positions 1 (printed (find_unclosed_backtick (single_file target crlf_text) target)) = [2] \<and>
   event_positions 2 (printed (find_unclosed_backtick (single_file target crlf_text) target)) = [1, 2]"
proof -
  have h: "single_file target crlf_text target = Inr crlf_text"
    by (simp add: single_file_def)
  have s: "strip_terminator [97, 96, 10] = [97, 96]" "strip_terminator [96, 96, 10] = [96, 96]"
    by (simp_all add: strip_terminator_def LF_def)
  have b: "backtick_offsets [97, 96] = [2]" "backtick_offsets [96, 96] = [1, 2]"
    by (simp_all add: backtick_offsets_def BACKTICK_def upt_rec [of 0] upt_rec [of 1] upt_rec [of 2])
  note p = positions_exclude_terminator [of "single_file target crlf_text" target crlf_text,
      OF h, unfolded Let_def, THEN conjunct2, THEN conjunct2, THEN conjunct2, rule_format]
  have "event_positions (int 0 + 1) (printed (find_unclosed_backtick (single_file target crlf_text) target)) =
      backtick_offsets (strip_terminator (readlines crlf_text ! 0))"
    using p [of 0] by (simp add: readlines_crlf_text)
  moreover have "event_positions (int 1 + 1) (printed (find_unclosed_backtick (single_file target crlf_text) target)) =
      backtick_offsets (strip_terminator (readlines crlf_text ! 1))"
    using p [of 1] by (simp add: readlines_crlf_text)
  ultimately show ?thesis using h
    by (simp add: readlines_crlf_text s b)
qed

end
